theory Spec2Isabelle
  imports Complex_Main "HOL-Library.Word" "HOL-Library.AList"
begin

unbundle bit_operations_syntax

section \<open>Data model\<close>

text \<open>
  A JavaScript string is a sequence of 16-bit code units; \<open>js\<close> writes an ASCII
  literal as such a sequence. The strings over the alphabet \<open>0\<close>/\<open>1\<close> that
  \<open>steganography.ts\<close> passes around (\<open>binaryData\<close>, \<open>fullBinary\<close>, \<open>delimiter\<close>)
  are lists of bits, \<open>True\<close> for the character \<open>1\<close>. The \<open>Uint8ClampedArray\<close> of an
  \<open>ImageData\<close> is a flat list of bytes, four (R, G, B, A) per pixel, row-major.
\<close>

type_synonym codeunit = "16 word"
type_synonym jsstring = "codeunit list"
type_synonym bits = "bool list"
type_synonym pixels = "8 word list"

definition js :: "string \<Rightarrow> jsstring" where
  "js s = map (\<lambda>c. of_nat (of_char c)) s"

text \<open>
  \<open>interface ClickPoint { x; y; order }\<close> and \<open>interface SteganographyData
  { message; clickSequence }\<close>. The fields \<open>x\<close>, \<open>y\<close> and \<open>order\<close> are prefixed with
  \<open>pt_\<close>. The type parameter is the platform's type of Numbers; \<open>order\<close> only ever
  holds an index of the sequence.
\<close>

record 'n ClickPoint =
  pt_x :: 'n
  pt_y :: 'n
  pt_order :: nat

record 'n SteganographyData =
  message :: jsstring
  clickSequence :: "'n ClickPoint list"

section \<open>steganography.ts: bit-string conversion\<close>

text \<open>\<open>n.toString(2)\<close>: the binary digits of \<open>n\<close>, most significant first, no padding.\<close>

function toString2 :: "nat \<Rightarrow> bits" where
  "toString2 n = (if n < 2 then [n = 1] else toString2 (n div 2) @ [n mod 2 = 1])"
  by pat_completeness auto
termination
  by (relation "measure (\<lambda>n. n)") auto

declare toString2.simps [simp del]

text \<open>\<open>s.padStart(k, c)\<close> for a one-character pad string.\<close>

definition padStart :: "nat \<Rightarrow> bool \<Rightarrow> bits \<Rightarrow> bits" where
  "padStart k c s = replicate (k - length s) c @ s"

text \<open>\<open>parseInt(s, 2)\<close> on a non-empty string of binary digits.\<close>

definition parseInt2 :: "bits \<Rightarrow> nat" where
  "parseInt2 s = foldl (\<lambda>a b. 2 * a + (if b then 1 else 0)) 0 s"

text \<open>\<open>String.fromCharCode(n)\<close> keeps the low 16 bits of \<open>n\<close>.\<close>

definition fromCharCode :: "nat \<Rightarrow> codeunit" where
  "fromCharCode n = of_nat n"

definition stringToBinary :: "jsstring \<Rightarrow> bits" where
  "stringToBinary str = concat (map (\<lambda>char. padStart 8 False (toString2 (unat char))) str)"

text \<open>
  \<open>binary.match(/.{8}/g)\<close>: the consecutive groups of eight characters; a shorter
  rest is dropped, and no group at all is the \<open>null\<close> that \<open>binaryToString\<close> maps
  to the empty string.
\<close>

function match8 :: "bits \<Rightarrow> bits list" where
  "match8 binary = (if length binary < 8 then [] else take 8 binary # match8 (drop 8 binary))"
  by pat_completeness auto
termination
  by (relation "measure length") auto

declare match8.simps [simp del]

definition binaryToString :: "bits \<Rightarrow> jsstring" where
  "binaryToString binary =
     (let chars = match8 binary
      in if chars = [] then [] else map (\<lambda>byte. fromCharCode (parseInt2 byte)) chars)"

section \<open>JSON values\<close>

text \<open>
  The values that \<open>JSON.parse\<close> produces and \<open>JSON.stringify\<close> prints. An object
  is the list of its own properties in insertion order.
\<close>

datatype json =
    JNull
  | JBool bool
  | JNum real
  | JStr jsstring
  | JArr "json list"
  | JObj "(jsstring \<times> json) list"

text \<open>
  The object that a \<open>ClickPoint\<close> and a \<open>SteganographyData\<close> are at run time, for
  coordinates that are real numbers.
\<close>

definition pointValue :: "real ClickPoint \<Rightarrow> json" where
  "pointValue p =
     JObj [(js ''x'', JNum (pt_x p)), (js ''y'', JNum (pt_y p)),
           (js ''order'', JNum (real (pt_order p)))]"

definition dataValue :: "real SteganographyData \<Rightarrow> json" where
  "dataValue d =
     JObj [(js ''message'', JStr (message d)),
           (js ''clickSequence'', JArr (map pointValue (clickSequence d)))]"

text \<open>\<open>v.name\<close> for a property that only an object can have.\<close>

fun getProp :: "json \<Rightarrow> jsstring \<Rightarrow> json option" where
  "getProp (JObj ms) name = map_of ms name"
| "getProp _ name = None"

text \<open>JavaScript truthiness of a JSON value.\<close>

fun truthy :: "json \<Rightarrow> bool" where
  "truthy JNull = False"
| "truthy (JBool b) = b"
| "truthy (JNum r) = (r \<noteq> 0)"
| "truthy (JStr s) = (s \<noteq> [])"
| "truthy (JArr vs) = True"
| "truthy (JObj ms) = True"

section \<open>The platform's JSON.stringify and JSON.parse\<close>

text \<open>
  \<open>Number::toString\<close> of the real numbers whose decimal expansion ends within 17
  fraction digits and whose magnitude is written without an exponent (from
  \<open>1e-6\<close> up to \<open>1e21\<close>): the integer part, then the fraction digits.
\<close>

function digitsOf :: "nat \<Rightarrow> jsstring" where
  "digitsOf n = (if n < 10 then [of_nat (48 + n)] else digitsOf (n div 10) @ [of_nat (48 + n mod 10)])"
  by pat_completeness auto
termination
  by (relation "measure (\<lambda>n. n)") auto

declare digitsOf.simps [simp del]

fun fracDigits :: "nat \<Rightarrow> real \<Rightarrow> jsstring" where
  "fracDigits 0 r = []"
| "fracDigits (Suc fuel) r =
     (if r = 0 then []
      else let d = nat \<lfloor>10 * r\<rfloor> in of_nat (48 + d) # fracDigits fuel (10 * r - real d))"

definition numberToString :: "real \<Rightarrow> jsstring" where
  "numberToString r =
     (let a = \<bar>r\<bar>; n = nat \<lfloor>a\<rfloor>; f = a - real n
      in (if r < 0 then js ''-'' else []) @ digitsOf n
         @ (if f = 0 then [] else js ''.'' @ fracDigits 17 f))"

text \<open>
  \<open>QuoteJSONString\<close>: the two-character escapes, \<open>\\u00xx\<close> for the other control
  characters and for a surrogate without its partner, every other code unit as it is.
\<close>

definition hexDigit :: "nat \<Rightarrow> codeunit" where
  "hexDigit n = (if n < 10 then of_nat (48 + n) else of_nat (87 + n))"

definition unicodeEscape :: "codeunit \<Rightarrow> jsstring" where
  "unicodeEscape c =
     (let n = unat c
      in [0x5C, 0x75, hexDigit (n div 4096), hexDigit (n div 256 mod 16),
          hexDigit (n div 16 mod 16), hexDigit (n mod 16)])"

definition isHigh :: "codeunit \<Rightarrow> bool" where
  "isHigh c = (0xD800 \<le> c \<and> c \<le> 0xDBFF)"

definition isLow :: "codeunit \<Rightarrow> bool" where
  "isLow c = (0xDC00 \<le> c \<and> c \<le> 0xDFFF)"

fun quoteChars :: "jsstring \<Rightarrow> jsstring" where
  "quoteChars [] = []"
| "quoteChars (c # cs) =
     (if c = 0x08 then [0x5C, 0x62] @ quoteChars cs
      else if c = 0x09 then [0x5C, 0x74] @ quoteChars cs
      else if c = 0x0A then [0x5C, 0x6E] @ quoteChars cs
      else if c = 0x0C then [0x5C, 0x66] @ quoteChars cs
      else if c = 0x0D then [0x5C, 0x72] @ quoteChars cs
      else if c = 0x22 then [0x5C, 0x22] @ quoteChars cs
      else if c = 0x5C then [0x5C, 0x5C] @ quoteChars cs
      else if c < 0x20 then unicodeEscape c @ quoteChars cs
      else if isHigh c then
        (case cs of
           [] \<Rightarrow> unicodeEscape c
         | c' # cs' \<Rightarrow> if isLow c' then c # c' # quoteChars cs'
                       else unicodeEscape c @ quoteChars cs)
      else if isLow c then unicodeEscape c @ quoteChars cs
      else c # quoteChars cs)"

definition quoteJSONString :: "jsstring \<Rightarrow> jsstring" where
  "quoteJSONString s = [0x22] @ quoteChars s @ [0x22]"

text \<open>\<open>JSON.stringify\<close> with no indentation.\<close>

fun joinWith :: "jsstring \<Rightarrow> jsstring list \<Rightarrow> jsstring" where
  "joinWith sep [] = []"
| "joinWith sep [s] = s"
| "joinWith sep (s # ss) = s @ sep @ joinWith sep ss"

fun JSON_stringify :: "json \<Rightarrow> jsstring" where
  "JSON_stringify JNull = js ''null''"
| "JSON_stringify (JBool b) = (if b then js ''true'' else js ''false'')"
| "JSON_stringify (JNum r) = numberToString r"
| "JSON_stringify (JStr s) = quoteJSONString s"
| "JSON_stringify (JArr vs) = js ''['' @ joinWith (js '','') (map JSON_stringify vs) @ js '']''"
| "JSON_stringify (JObj ms) =
     js ''{''
     @ joinWith (js '','')
         (map (\<lambda>m. quoteJSONString (fst m) @ js '':'' @ JSON_stringify (snd m)) ms)
     @ js ''}''"


text \<open>
  \<open>JSON.parse\<close> without a reviver, by recursive descent on the JSON grammar;
  \<open>None\<close> is the \<open>SyntaxError\<close>. A number is the exact value of its literal. A
  repeated key keeps its first position and its last value. The fuel bounds the
  depth of the recursion; it is twice the length of the text, plus two.
\<close>

definition isWs :: "codeunit \<Rightarrow> bool" where
  "isWs c = (c = 0x09 \<or> c = 0x0A \<or> c = 0x0D \<or> c = 0x20)"

definition skipWs :: "jsstring \<Rightarrow> jsstring" where
  "skipWs cs = dropWhile isWs cs"

definition isDigit :: "codeunit \<Rightarrow> bool" where
  "isDigit c = (0x30 \<le> c \<and> c \<le> 0x39)"

definition hexVal :: "codeunit \<Rightarrow> nat option" where
  "hexVal c =
     (if 0x30 \<le> c \<and> c \<le> 0x39 then Some (unat c - 48)
      else if 0x41 \<le> c \<and> c \<le> 0x46 then Some (unat c - 55)
      else if 0x61 \<le> c \<and> c \<le> 0x66 then Some (unat c - 87)
      else None)"

definition hex4 :: "codeunit \<Rightarrow> codeunit \<Rightarrow> codeunit \<Rightarrow> codeunit \<Rightarrow> codeunit option" where
  "hex4 a b c d =
     (case (hexVal a, hexVal b, hexVal c, hexVal d) of
        (Some h1, Some h2, Some h3, Some h4) \<Rightarrow> Some (of_nat (((h1 * 16 + h2) * 16 + h3) * 16 + h4))
      | _ \<Rightarrow> None)"

definition unescape :: "codeunit \<Rightarrow> codeunit option" where
  "unescape e =
     (if e = 0x22 \<or> e = 0x5C \<or> e = 0x2F then Some e
      else if e = 0x62 then Some 0x08
      else if e = 0x66 then Some 0x0C
      else if e = 0x6E then Some 0x0A
      else if e = 0x72 then Some 0x0D
      else if e = 0x74 then Some 0x09
      else None)"

definition consChar :: "codeunit \<Rightarrow> (jsstring \<times> jsstring) option \<Rightarrow> (jsstring \<times> jsstring) option" where
  "consChar c r = (case r of None \<Rightarrow> None | Some (s, rest) \<Rightarrow> Some (c # s, rest))"

fun parseChars :: "jsstring \<Rightarrow> (jsstring \<times> jsstring) option" where
  "parseChars [] = None"
| "parseChars (c # cs) =
     (if c = 0x22 then Some ([], cs)
      else if c = 0x5C then
        (case cs of
           [] \<Rightarrow> None
         | e # cs1 \<Rightarrow>
             if e = 0x75 then
               (case cs1 of
                  h1 # h2 # h3 # h4 # cs2 \<Rightarrow>
                    (case hex4 h1 h2 h3 h4 of
                       None \<Rightarrow> None
                     | Some u \<Rightarrow> consChar u (parseChars cs2))
                | _ \<Rightarrow> None)
             else (case unescape e of
                     None \<Rightarrow> None
                   | Some u \<Rightarrow> consChar u (parseChars cs1)))
      else if c < 0x20 then None
      else consChar c (parseChars cs))"

definition digitsValue :: "jsstring \<Rightarrow> nat" where
  "digitsValue ds = foldl (\<lambda>a c. 10 * a + (unat c - 48)) 0 ds"

definition scale10 :: "real \<Rightarrow> int \<Rightarrow> real" where
  "scale10 v e = (if 0 \<le> e then v * 10 ^ nat e else v / 10 ^ nat (- e))"

definition parseNumber :: "jsstring \<Rightarrow> (real \<times> jsstring) option" where
  "parseNumber cs =
     (let neg = (cs \<noteq> [] \<and> hd cs = 0x2D);
          cs1 = (if neg then tl cs else cs);
          ds = takeWhile isDigit cs1;
          cs2 = dropWhile isDigit cs1
      in if ds = [] \<or> (1 < length ds \<and> hd ds = 0x30) then None
         else
           let hasFrac = (cs2 \<noteq> [] \<and> hd cs2 = 0x2E);
               fs = (if hasFrac then takeWhile isDigit (tl cs2) else []);
               cs3 = (if hasFrac then dropWhile isDigit (tl cs2) else cs2)
           in if hasFrac \<and> fs = [] then None
              else
                let hasExp = (cs3 \<noteq> [] \<and> (hd cs3 = 0x65 \<or> hd cs3 = 0x45));
                    cs4 = (if hasExp then tl cs3 else cs3);
                    eneg = (hasExp \<and> cs4 \<noteq> [] \<and> hd cs4 = 0x2D);
                    cs5 = (if hasExp \<and> cs4 \<noteq> [] \<and> (hd cs4 = 0x2D \<or> hd cs4 = 0x2B)
                           then tl cs4 else cs4);
                    es = (if hasExp then takeWhile isDigit cs5 else []);
                    cs6 = (if hasExp then dropWhile isDigit cs5 else cs3)
                in if hasExp \<and> es = [] then None
                   else
                     let m = real (digitsValue ds) + real (digitsValue fs) / 10 ^ length fs;
                         e = (if eneg then - int (digitsValue es) else int (digitsValue es));
                         v = scale10 m e
                     in Some (if neg then - v else v, cs6))"

definition startsWith :: "jsstring \<Rightarrow> jsstring \<Rightarrow> bool" where
  "startsWith cs p = (take (length p) cs = p)"

fun parseValue :: "nat \<Rightarrow> jsstring \<Rightarrow> (json \<times> jsstring) option"
  and parseElements :: "nat \<Rightarrow> jsstring \<Rightarrow> (json list \<times> jsstring) option"
  and parseMembers :: "nat \<Rightarrow> jsstring \<Rightarrow> ((jsstring \<times> json) list \<times> jsstring) option" where
  "parseValue 0 cs = None"
| "parseValue (Suc fuel) cs =
     (case skipWs cs of
        [] \<Rightarrow> None
      | c # r \<Rightarrow>
          if c = 0x7B then
            (case skipWs r of
               [] \<Rightarrow> None
             | c' # r' \<Rightarrow>
                 if c' = 0x7D then Some (JObj [], r')
                 else (case parseMembers fuel r of
                         None \<Rightarrow> None
                       | Some (ms, rest) \<Rightarrow>
                           Some (JObj (foldl (\<lambda>obj m. AList.update (fst m) (snd m) obj) [] ms), rest)))
          else if c = 0x5B then
            (case skipWs r of
               [] \<Rightarrow> None
             | c' # r' \<Rightarrow>
                 if c' = 0x5D then Some (JArr [], r')
                 else (case parseElements fuel r of
                         None \<Rightarrow> None
                       | Some (vs, rest) \<Rightarrow> Some (JArr vs, rest)))
          else if c = 0x22 then
            (case parseChars r of
               None \<Rightarrow> None
             | Some (s, rest) \<Rightarrow> Some (JStr s, rest))
          else if startsWith (c # r) (js ''null'') then Some (JNull, drop 4 (c # r))
          else if startsWith (c # r) (js ''true'') then Some (JBool True, drop 4 (c # r))
          else if startsWith (c # r) (js ''false'') then Some (JBool False, drop 5 (c # r))
          else (case parseNumber (c # r) of
                  None \<Rightarrow> None
                | Some (v, rest) \<Rightarrow> Some (JNum v, rest)))"
| "parseElements 0 cs = None"
| "parseElements (Suc fuel) cs =
     (case parseValue fuel cs of
        None \<Rightarrow> None
      | Some (v, r) \<Rightarrow>
          (case skipWs r of
             [] \<Rightarrow> None
           | c # r' \<Rightarrow>
               if c = 0x5D then Some ([v], r')
               else if c = 0x2C then
                 (case parseElements fuel r' of
                    None \<Rightarrow> None
                  | Some (vs, rest) \<Rightarrow> Some (v # vs, rest))
               else None))"
| "parseMembers 0 cs = None"
| "parseMembers (Suc fuel) cs =
     (case skipWs cs of
        [] \<Rightarrow> None
      | c # r \<Rightarrow>
          if c \<noteq> 0x22 then None
          else (case parseChars r of
                  None \<Rightarrow> None
                | Some (k, r1) \<Rightarrow>
                    (case skipWs r1 of
                       [] \<Rightarrow> None
                     | c1 # r2 \<Rightarrow>
                         if c1 \<noteq> 0x3A then None
                         else (case parseValue fuel r2 of
                                 None \<Rightarrow> None
                               | Some (v, r3) \<Rightarrow>
                                   (case skipWs r3 of
                                      [] \<Rightarrow> None
                                    | c3 # r4 \<Rightarrow>
                                        if c3 = 0x7D then Some ([(k, v)], r4)
                                        else if c3 = 0x2C then
                                          (case parseMembers fuel r4 of
                                             None \<Rightarrow> None
                                           | Some (ms, rest) \<Rightarrow> Some ((k, v) # ms, rest))
                                        else None)))))"

definition JSON_parse :: "jsstring \<Rightarrow> json option" where
  "JSON_parse text =
     (case parseValue (2 * length text + 2) text of
        None \<Rightarrow> None
      | Some (v, rest) \<Rightarrow> if skipWs rest = [] then Some v else None)"

text \<open>\<open>JSON.stringify(data)\<close> on a payload.\<close>

definition stringifyData :: "real SteganographyData \<Rightarrow> jsstring" where
  "stringifyData d = JSON_stringify (dataValue d)"

section \<open>steganography.ts: encodeMessage and decodeMessage\<close>

datatype error = CapacityExceeded

text \<open>The 16-bit delimiter \<open>1111111111111110\<close>.\<close>

definition delimiter :: bits where
  "delimiter = replicate 15 True @ [False]"

text \<open>
  The loop of \<open>encodeMessage\<close>, from bit index \<open>i\<close> on:
  \<open>pixels[i * 4] = (pixels[i * 4] & 0xFE) | bit\<close>.
\<close>

fun hideBits :: "bits \<Rightarrow> nat \<Rightarrow> pixels \<Rightarrow> pixels" where
  "hideBits [] i pixels = pixels"
| "hideBits (b # rest) i pixels =
     hideBits rest (i + 1)
       (pixels[i * 4 := (pixels ! (i * 4) AND 0xFE) OR (if b then 1 else 0)])"

text \<open>
  \<open>encodeMessage\<close> on the pixel data of the canvas. \<open>stringify\<close> is the platform's
  \<open>JSON.stringify\<close> on the payload. The test \<open>fullBinary.length > pixels.length / 4\<close>
  compares an integer with a quotient of integers, which is the comparison
  \<open>pixels.length < 4 * fullBinary.length\<close>. The first component of the result is the
  outcome of the promise (the error, or the pixel data of the PNG blob), the second
  the pixel data of the canvas after the call. The 2D context of the canvas and the
  blob are taken to be available.
\<close>

definition encodeMessage ::
  "('n SteganographyData \<Rightarrow> jsstring) \<Rightarrow> pixels \<Rightarrow> 'n SteganographyData
     \<Rightarrow> (error + pixels) \<times> pixels" where
  "encodeMessage stringify pixels d =
     (let serializedData = stringify d;
          binaryData = stringToBinary serializedData;
          fullBinary = binaryData @ delimiter
      in if length pixels < 4 * length fullBinary then (Inl CapacityExceeded, pixels)
         else let pixels' = hideBits fullBinary 0 pixels in (Inr pixels', pixels'))"

text \<open>\<open>s.endsWith(d)\<close>.\<close>

definition endsWith :: "bits \<Rightarrow> bits \<Rightarrow> bool" where
  "endsWith s d = (length d \<le> length s \<and> drop (length s - length d) s = d)"

text \<open>
  The loop of \<open>decodeMessage\<close>, from pixel index \<open>i\<close> on, with \<open>binaryData\<close> read so
  far; the condition \<open>i < pixels.length / 4\<close> is \<open>i * 4 < pixels.length\<close>.
\<close>

function extractBits :: "pixels \<Rightarrow> nat \<Rightarrow> bits \<Rightarrow> bits" where
  "extractBits pixels i binaryData =
     (if i * 4 < length pixels then
        let b = pixels ! (i * 4) AND 1;
            binaryData' = binaryData @ [b = 1]
        in if endsWith binaryData' delimiter
           then take (length binaryData' - length delimiter) binaryData'
           else extractBits pixels (i + 1) binaryData'
      else binaryData)"
  by pat_completeness auto
termination
  by (relation "measure (\<lambda>(pixels, i, binaryData). length pixels - i * 4)") auto

declare extractBits.simps [simp del]

text \<open>
  \<open>decodeMessage\<close> on the pixel data of the canvas. \<open>parse\<close> is the platform's
  \<open>JSON.parse\<close>, \<open>None\<close> where it throws; the \<open>catch\<close> turns that into \<open>null\<close>.
  \<open>None\<close> is the result \<open>null\<close>, which is also what a parsed \<open>null\<close> is.
\<close>

definition decodeMessage :: "(jsstring \<Rightarrow> json option) \<Rightarrow> pixels \<Rightarrow> json option" where
  "decodeMessage parse pixels =
     (let binaryData = extractBits pixels 0 []
      in if binaryData = [] then None
         else let jsonString = binaryToString binaryData
              in if jsonString = [] then None
                 else case parse jsonString of
                        None \<Rightarrow> None
                      | Some JNull \<Rightarrow> None
                      | Some v \<Rightarrow> Some v)"

text \<open>
  The platform's arithmetic on Numbers (IEEE 754 doubles), which the source uses and
  does not define: the Number of an integer literal or of a canvas dimension, the
  operators \<open>-\<close>, \<open>+\<close>, \<open>*\<close> and \<open>/\<close>, \<open>Math.pow\<close>, \<open>Math.sqrt\<close> and the
  comparison \<open><=\<close>. The functions below take these operations as an argument.
\<close>

record 'n number_ops =
  n_int :: "int \<Rightarrow> 'n"
  n_sub :: "'n \<Rightarrow> 'n \<Rightarrow> 'n"
  n_add :: "'n \<Rightarrow> 'n \<Rightarrow> 'n"
  n_mul :: "'n \<Rightarrow> 'n \<Rightarrow> 'n"
  n_div :: "'n \<Rightarrow> 'n \<Rightarrow> 'n"
  n_pow :: "'n \<Rightarrow> 'n \<Rightarrow> 'n"
  n_sqrt :: "'n \<Rightarrow> 'n"
  n_le :: "'n \<Rightarrow> 'n \<Rightarrow> bool"

text \<open>
  \<open>normalizeClickPoint\<close>, \<open>denormalizeClickPoint\<close> and \<open>isClickNearPoint\<close>. An
  omitted \<open>tolerance\<close> argument is \<open>None\<close> and takes the default of the signature.
\<close>

definition normalizeClickPoint :: "'n number_ops \<Rightarrow> 'n \<Rightarrow> 'n \<Rightarrow> 'n \<Rightarrow> 'n \<Rightarrow> nat \<Rightarrow> 'n ClickPoint" where
  "normalizeClickPoint ops cx cy canvasWidth canvasHeight ord =
     \<lparr>pt_x = n_div ops cx canvasWidth, pt_y = n_div ops cy canvasHeight, pt_order = ord\<rparr>"

definition denormalizeClickPoint :: "'n number_ops \<Rightarrow> 'n ClickPoint \<Rightarrow> 'n \<Rightarrow> 'n \<Rightarrow> 'n \<times> 'n" where
  "denormalizeClickPoint ops point canvasWidth canvasHeight =
     (n_mul ops (pt_x point) canvasWidth, n_mul ops (pt_y point) canvasHeight)"

definition defaultTolerance :: int where
  "defaultTolerance = 30"

definition isClickNearPoint :: "'n number_ops \<Rightarrow> 'n \<Rightarrow> 'n \<Rightarrow> 'n \<Rightarrow> 'n \<Rightarrow> 'n option \<Rightarrow> bool" where
  "isClickNearPoint ops clickX clickY targetX targetY tolerance =
     (let tol = (case tolerance of None \<Rightarrow> n_int ops defaultTolerance | Some t \<Rightarrow> t);
          distance =
            n_sqrt ops
              (n_add ops (n_pow ops (n_sub ops clickX targetX) (n_int ops 2))
                         (n_pow ops (n_sub ops clickY targetY) (n_int ops 2)))
      in n_le ops distance tol)"

section \<open>ImageCanvas.tsx: the click matcher\<close>

text \<open>
  The state of the component: \<open>currentStep\<close> and \<open>verificationAttempts\<close>. The prop
  \<open>clickSequence\<close> and the width and height of the canvas, which are integers, are
  arguments.
\<close>

record 'n ImageCanvas =
  currentStep :: nat
  verificationAttempts :: "'n ClickPoint list"

text \<open>
  The two callbacks that \<open>handleVerificationClick\<close> hands to \<open>setTimeout\<close>:
  after 500 ms \<open>onVerificationComplete(true)\<close>; after 1000 ms the reset of the
  state followed by \<open>onVerificationComplete(false)\<close>. The handler returns the
  state after its own updates and the callback it has scheduled, if any.
\<close>

datatype timer = CompleteTimer | ResetTimer

definition handleVerificationClick ::
  "'n number_ops \<Rightarrow> 'n ClickPoint list \<Rightarrow> nat \<Rightarrow> nat \<Rightarrow> 'n \<Rightarrow> 'n \<Rightarrow> 'n ImageCanvas
     \<Rightarrow> 'n ImageCanvas \<times> timer option" where
  "handleVerificationClick ops sequence width height cx cy st =
     (if length sequence \<le> currentStep st then (st, None)
      else
        let targetPoint = sequence ! currentStep st;
            targetPos = denormalizeClickPoint ops targetPoint
                          (n_int ops (int width)) (n_int ops (int height));
            isCorrect = isClickNearPoint ops cx cy (fst targetPos) (snd targetPos)
                          (Some (n_int ops 25));
            newAttempt = \<lparr>pt_x = n_div ops cx (n_int ops (int width)),
                          pt_y = n_div ops cy (n_int ops (int height)),
                          pt_order = currentStep st\<rparr>;
            st1 = st\<lparr>verificationAttempts := verificationAttempts st @ [newAttempt]\<rparr>
        in if isCorrect then
             let newStep = currentStep st + 1;
                 st2 = st1\<lparr>currentStep := newStep\<rparr>
             in (st2, if length sequence \<le> newStep then Some CompleteTimer else None)
           else (st1, Some ResetTimer))"

text \<open>Running a timer: the new state and the argument of \<open>onVerificationComplete\<close>.\<close>

fun fireTimer :: "timer \<Rightarrow> 'n ImageCanvas \<Rightarrow> 'n ImageCanvas \<times> bool" where
  "fireTimer CompleteTimer st = (st, True)"
| "fireTimer ResetTimer st = (st\<lparr>currentStep := 0, verificationAttempts := []\<rparr>, False)"



definition initialCanvas :: "'n ImageCanvas" where
  "initialCanvas = \<lparr>currentStep = 0, verificationAttempts = []\<rparr>"

section \<open>DecodeMode.tsx: attempts and lockout\<close>

text \<open>
  The state of the component. The loaded image is the pixel data it draws on a
  canvas; the field \<open>clickSequence\<close> is prefixed with \<open>dm_\<close>.
\<close>

record 'n DecodeMode =
  image :: "pixels option"
  dm_clickSequence :: "'n ClickPoint list"
  isVerifying :: bool
  verificationSuccess :: bool
  decodedMessage :: json
  attempts :: nat

definition initialDecodeMode :: "'n DecodeMode" where
  "initialDecodeMode =
     \<lparr>image = None, dm_clickSequence = [], isVerifying = False,
      verificationSuccess = False, decodedMessage = JStr [], attempts = 0\<rparr>"

definition startVerification :: "'n DecodeMode \<Rightarrow> 'n DecodeMode" where
  "startVerification st =
     (if dm_clickSequence st = [] then st
      else st\<lparr>isVerifying := True, verificationSuccess := False\<rparr>)"

text \<open>
  \<open>revealMessage\<close> and \<open>handleVerificationComplete\<close> are closures of a render of the
  component: what they read (\<open>image\<close>, \<open>attempts\<close>) is the state \<open>closure\<close> of that
  render, and what they set is set in the current state \<open>st\<close>.
  \<open>setAttempts(prev => prev + 1)\<close> counts from the current value; the
  \<open>setAttempts(0)\<close> of \<open>resetAll\<close> comes after it.
\<close>

definition revealMessage ::
  "(jsstring \<Rightarrow> json option) \<Rightarrow> 'n DecodeMode \<Rightarrow> 'n DecodeMode \<Rightarrow> 'n DecodeMode" where
  "revealMessage parse closure st =
     (case image closure of
        None \<Rightarrow> st
      | Some pixels \<Rightarrow>
          (case decodeMessage parse pixels of
             None \<Rightarrow> st
           | Some dat \<Rightarrow>
               (case getProp dat (js ''message'') of
                  None \<Rightarrow> st
                | Some m \<Rightarrow> if truthy dat \<and> truthy m then st\<lparr>decodedMessage := m\<rparr> else st)))"

definition resetAll :: "'n DecodeMode \<Rightarrow> 'n DecodeMode" where
  "resetAll st =
     st\<lparr>image := None, dm_clickSequence := [], isVerifying := False,
        verificationSuccess := False, decodedMessage := JStr [], attempts := 0\<rparr>"

definition handleVerificationComplete ::
  "(jsstring \<Rightarrow> json option) \<Rightarrow> 'n DecodeMode \<Rightarrow> bool \<Rightarrow> 'n DecodeMode \<Rightarrow> 'n DecodeMode" where
  "handleVerificationComplete parse closure success st =
     (let st1 = st\<lparr>isVerifying := False\<rparr>
      in if success then revealMessage parse closure (st1\<lparr>verificationSuccess := True\<rparr>)
         else
           let st2 = st1\<lparr>attempts := attempts st1 + 1\<rparr>
           in if 2 \<le> attempts closure then resetAll st2 else st2)"

subsection \<open>The two components together\<close>

text \<open>
  The state of \<open>DecodeMode\<close>, the state of its \<open>ImageCanvas\<close>, and the callbacks
  scheduled and not yet run, each with the state of \<open>DecodeMode\<close> at the click that
  scheduled it: that is the render whose \<open>handleVerificationComplete\<close> the callback
  holds.
\<close>

record 'n App =
  app_decode :: "'n DecodeMode"
  app_canvas :: "'n ImageCanvas"
  app_pending :: "(timer \<times> 'n DecodeMode) list"

text \<open>
  The events: the button that starts the authentication, shown while an image with a
  click sequence is loaded and no verification runs or has succeeded; a click on the
  canvas, a verification click while verifying and ignored otherwise; and the run of
  the scheduled callback at a position of the list. After
  \<open>handleVerificationComplete\<close> the effect on \<open>isVerifying\<close> resets the matcher.
  The upload of an image and the other buttons are left out.
\<close>

datatype 'n event = StartVerification | CanvasClick 'n 'n | TimerFires nat

fun appStep ::
  "(jsstring \<Rightarrow> json option) \<Rightarrow> 'n number_ops \<Rightarrow> nat \<Rightarrow> nat \<Rightarrow> 'n event \<Rightarrow> 'n App \<Rightarrow> 'n App" where
  "appStep parse ops width height StartVerification app =
     (let d = app_decode app
      in if image d \<noteq> None \<and> dm_clickSequence d \<noteq> [] \<and> \<not> isVerifying d
            \<and> \<not> verificationSuccess d
         then app\<lparr>app_decode := startVerification d\<rparr>
         else app)"
| "appStep parse ops width height (CanvasClick cx cy) app =
     (let d = app_decode app
      in if image d \<noteq> None \<and> dm_clickSequence d \<noteq> [] \<and> isVerifying d then
           (case handleVerificationClick ops (dm_clickSequence d) width height cx cy
                   (app_canvas app) of
              (c, t) \<Rightarrow>
                app\<lparr>app_canvas := c,
                    app_pending := app_pending app
                      @ (case t of None \<Rightarrow> [] | Some t' \<Rightarrow> [(t', d)])\<rparr>)
         else app)"
| "appStep parse ops width height (TimerFires k) app =
     (if k < length (app_pending app) then
        (case app_pending app ! k of
           (t, closure) \<Rightarrow>
             (case fireTimer t (app_canvas app) of
                (c, success) \<Rightarrow>
                  let d = handleVerificationComplete parse closure success (app_decode app)
                  in app\<lparr>app_decode := d,
                         app_canvas := (if isVerifying d then c else initialCanvas),
                         app_pending := take k (app_pending app)
                           @ drop (Suc k) (app_pending app)\<rparr>))
      else app)"

definition runEvents ::
  "(jsstring \<Rightarrow> json option) \<Rightarrow> 'n number_ops \<Rightarrow> nat \<Rightarrow> nat \<Rightarrow> 'n event list \<Rightarrow> 'n App \<Rightarrow> 'n App" where
  "runEvents parse ops width height events app =
     foldl (\<lambda>a e. appStep parse ops width height e a) app events"

section \<open>Notions used to state the properties\<close>

definition pixelCount :: "pixels \<Rightarrow> nat" where
  "pixelCount pixels = length pixels div 4"

text \<open>The red-channel least significant bits of the pixels, in pixel order.\<close>

definition lsbs :: "pixels \<Rightarrow> bits" where
  "lsbs pixels = map (\<lambda>i. pixels ! (i * 4) AND 1 = 1) [0..<(length pixels + 3) div 4]"

text \<open>No prefix of the bit stream ends with the delimiter.\<close>

definition terminatorFree :: "bits \<Rightarrow> bool" where
  "terminatorFree s = list_all (\<lambda>k. \<not> endsWith (take k s) delimiter) [0..<Suc (length s)]"

text \<open>The scan of \<open>decodeMessage\<close> on a bit stream, with the bits \<open>acc\<close> read so far.\<close>

fun scanBits :: "bits \<Rightarrow> bits \<Rightarrow> bits" where
  "scanBits acc [] = acc"
| "scanBits acc (b # rest) =
     (if endsWith (acc @ [b]) delimiter
      then take (length (acc @ [b]) - length delimiter) (acc @ [b])
      else scanBits (acc @ [b]) rest)"

text \<open>
  The test of \<open>handleVerificationClick\<close> at step \<open>i\<close>: \<open>isClickNearPoint\<close> on the
  click and the reference point of index \<open>i\<close> in canvas coordinates, with the
  tolerance 25.
\<close>

definition nearStep ::
  "'n number_ops \<Rightarrow> 'n ClickPoint list \<Rightarrow> nat \<Rightarrow> nat \<Rightarrow> 'n \<times> 'n \<Rightarrow> nat \<Rightarrow> bool" where
  "nearStep ops sequence width height click i =
     (let targetPos = denormalizeClickPoint ops (sequence ! i)
                        (n_int ops (int width)) (n_int ops (int height))
      in isClickNearPoint ops (fst click) (snd click) (fst targetPos) (snd targetPos)
           (Some (n_int ops 25)))"


text \<open>An opaque image, one pixel per bit, whose red channel is the bit.\<close>

definition carrier :: "bits \<Rightarrow> pixels" where
  "carrier s = concat (map (\<lambda>b. [if b then 1 else 0, 0, 0, 255]) s)"

section \<open>Example inputs\<close>

text \<open>
  A payload with three click points, and the same payload with the two-character
  message U+00FF U+00FE, whose sixteen bits are the delimiter.
\<close>

definition secretPoints :: "real ClickPoint list" where
  "secretPoints =
     [\<lparr>pt_x = 1 / 4, pt_y = 1 / 2, pt_order = 0\<rparr>,
      \<lparr>pt_x = 3 / 4, pt_y = 1 / 8, pt_order = 1\<rparr>,
      \<lparr>pt_x = 1 / 2, pt_y = 7 / 8, pt_order = 2\<rparr>]"

definition secretPayload :: "real SteganographyData" where
  "secretPayload = \<lparr>message = js ''meet at noon'', clickSequence = secretPoints\<rparr>"

definition collidingPayload :: "real SteganographyData" where
  "collidingPayload = \<lparr>message = [0xFF, 0xFE], clickSequence = secretPoints\<rparr>"

text \<open>The first twelve characters of the serialized payloads, up to the message.\<close>

definition messageOpening :: jsstring where
  "messageOpening = js ''{'' @ [0x22] @ js ''message'' @ [0x22] @ js '':'' @ [0x22]"

text \<open>A JSON object with a message and no click sequence.\<close>

definition messageOnly :: json where
  "messageOnly = JObj [(js ''message'', JStr (js ''meet at noon''))]"

text \<open>
  The arithmetic of the real numbers. IEEE 754 requires \<open>-\<close>, \<open>+\<close>, \<open>*\<close>, \<open>/\<close> and
  the square root to return the exact result whenever that result is a double, and
  \<open>Math.pow\<close> with the exponent 2 is taken to do so: on such operands these are the
  platform's operations. The examples below, on a canvas of 600 by 400, only meet such
  operands. \<open>n_pow\<close> is the power for an exponent that is a natural number.
\<close>

definition exactOps :: "real number_ops" where
  "exactOps =
     \<lparr>n_int = real_of_int, n_sub = (\<lambda>a b. a - b), n_add = (\<lambda>a b. a + b),
      n_mul = (\<lambda>a b. a * b), n_div = (\<lambda>a b. a / b), n_pow = (\<lambda>a b. a ^ nat \<lfloor>b\<rfloor>),
      n_sqrt = sqrt, n_le = (\<lambda>a b. a \<le> b)\<rparr>"



text \<open>
  A decoder that has loaded an image carrying \<open>secretPayload\<close>, whose first click
  point is at (150, 200) on a canvas of 600 by 400, with its matcher at rest.
\<close>

definition loadedDecodeMode :: "real DecodeMode" where
  "loadedDecodeMode =
     \<lparr>image = Some (carrier (stringToBinary (stringifyData secretPayload) @ delimiter)),
      dm_clickSequence = secretPoints, isVerifying = False,
      verificationSuccess = False, decodedMessage = JStr [], attempts = 0\<rparr>"

definition loadedApp :: "real App" where
  "loadedApp = \<lparr>app_decode = loadedDecodeMode, app_canvas = initialCanvas, app_pending = []\<rparr>"

text \<open>
  A session in which one click misses, in the corner of the canvas, and its callback
  runs; and a session in which three clicks miss before the first of their callbacks
  runs, one second after the first click.
\<close>

definition oneMiss :: "real event list" where
  "oneMiss = [StartVerification, CanvasClick 0 0, TimerFires 0]"

definition quickMisses :: "real event list" where
  "quickMisses =
     [StartVerification, CanvasClick 0 0, CanvasClick 0 0, CanvasClick 0 0,
      TimerFires 0, TimerFires 0, TimerFires 0]"

text \<open>An image of \<open>n\<close> black opaque pixels.\<close>

definition blankImage :: "nat \<Rightarrow> pixels" where
  "blankImage n = carrier (replicate n False)"

section \<open>Properties of the bit-string conversion\<close>

lemma parseInt2_append: "parseInt2 (s @ [b]) = 2 * parseInt2 s + (if b then 1 else 0)"
  by (simp add: parseInt2_def)

lemma parseInt2_toString2: "parseInt2 (toString2 n) = n"
proof (induction n rule: toString2.induct)
  case (1 n)
  show ?case
  proof (cases "n < 2")
    case True
    then have "n = 0 \<or> n = 1" by arith
    then show ?thesis by (auto simp: toString2.simps [of n] parseInt2_def)
  next
    case False
    with 1 have "parseInt2 (toString2 (n div 2)) = n div 2" by simp
    with False show ?thesis
      by (subst toString2.simps) (auto simp: parseInt2_append; presburger)
  qed
qed

lemma parseInt2_zeros: "parseInt2 (replicate k False @ s) = parseInt2 s"
  by (induction k) (simp_all add: parseInt2_def)

lemma parseInt2_padStart: "parseInt2 (padStart k False (toString2 n)) = n"
  by (simp add: padStart_def parseInt2_zeros parseInt2_toString2)

lemma length_toString2: "n < 2 ^ k \<Longrightarrow> 0 < k \<Longrightarrow> length (toString2 n) \<le> k"
proof (induction n arbitrary: k rule: toString2.induct)
  case (1 n)
  show ?case
  proof (cases "n < 2")
    case True
    with 1 show ?thesis by (simp add: toString2.simps [of n])
  next
    case False
    obtain j where k: "k = Suc j" using 1(3) by (cases k) auto
    from False 1(2) k have j: "0 < j" by (cases j) auto
    from 1(2) k have "n div 2 < 2 ^ j" by auto
    with 1(1) [OF False _ j] have "length (toString2 (n div 2)) \<le> j" by simp
    with False k show ?thesis by (subst toString2.simps) simp
  qed
qed

lemma length_toString2_lower: "2 ^ k \<le> n \<Longrightarrow> k < length (toString2 n)"
proof (induction n arbitrary: k rule: toString2.induct)
  case (1 n)
  show ?case
  proof (cases "n < 2")
    case True
    have "k = 0"
    proof (rule ccontr)
      assume "k \<noteq> 0"
      then have "(2::nat) ^ 1 \<le> 2 ^ k" by (intro power_increasing) auto
      with True 1(2) show False by simp
    qed
    with True show ?thesis by (simp add: toString2.simps [of n])
  next
    case False
    show ?thesis
    proof (cases k)
      case 0
      then show ?thesis by (subst toString2.simps) simp
    next
      case (Suc j)
      with 1(2) have "2 ^ j \<le> n div 2" by auto
      with 1(1) [OF False] have "j < length (toString2 (n div 2))" by simp
      with False Suc show ?thesis by (subst toString2.simps) simp
    qed
  qed
qed

lemma length_byte: "unat c < 256 \<Longrightarrow> length (padStart 8 False (toString2 (unat c))) = 8"
  using length_toString2 [of "unat c" 8] by (simp add: padStart_def)

lemma match8_chunk: "length b = 8 \<Longrightarrow> match8 (b @ rest) = b # match8 rest"
  by (subst match8.simps) simp

lemma match8_short: "length b < 8 \<Longrightarrow> match8 b = []"
  by (subst match8.simps) simp

lemma match8_stringToBinary:
  "\<forall>c \<in> set s. unat c < 256 \<Longrightarrow>
   match8 (stringToBinary s) = map (\<lambda>c. padStart 8 False (toString2 (unat c))) s"
proof (induction s)
  case Nil
  then show ?case by (simp add: stringToBinary_def match8_short)
next
  case (Cons c s)
  then show ?case
    using match8_chunk [of "padStart 8 False (toString2 (unat c))" "stringToBinary s"]
    by (simp add: stringToBinary_def length_byte)
qed

lemma binaryToString_stringToBinary:
  "\<forall>c \<in> set s. unat c < 256 \<Longrightarrow> binaryToString (stringToBinary s) = s"
  by (simp add: binaryToString_def match8_stringToBinary Let_def fromCharCode_def
      parseInt2_padStart o_def map_idI)

lemma length_stringToBinary:
  "\<forall>c \<in> set s. unat c < 256 \<Longrightarrow> length (stringToBinary s) = 8 * length s"
  by (induction s) (simp_all add: stringToBinary_def length_byte)

text \<open>Unfolding rules with a decidable guard, for evaluation.\<close>

lemma toString2_small: "n < 2 \<Longrightarrow> toString2 n = [n = 1]"
  by (subst toString2.simps) simp

lemma toString2_large: "2 \<le> n \<Longrightarrow> toString2 n = toString2 (n div 2) @ [n mod 2 = 1]"
  by (subst toString2.simps) simp

lemma match8_ge: "8 \<le> length b \<Longrightarrow> match8 b = take 8 b # match8 (drop 8 b)"
  by (subst match8.simps) simp

lemma match8_lt: "length b < 8 \<Longrightarrow> match8 b = []"
  by (subst match8.simps) simp

text \<open>
  C10 (eight bits per character, and \<open>binaryToString (stringToBinary s) = s\<close>).
  \<open>stringToBinary\<close> pads the binary digits of a code unit to eight but does not cut
  them: the one-letter string of U+043F (Cyrillic small pe) becomes eleven bits, and
  \<open>binaryToString\<close>, which reads groups of eight, returns the one-letter string of
  U+0087 instead.
\<close>

theorem stringToBinary_wide_char:
  "length (stringToBinary [0x43F]) = 11 \<and> binaryToString (stringToBinary [0x43F]) = [0x87]"
  by (simp add: stringToBinary_def padStart_def toString2_small toString2_large
      binaryToString_def match8_ge match8_lt parseInt2_def fromCharCode_def)

section \<open>Properties of the embedding and the scan\<close>

lemma bit_254_int: "n < 8 \<Longrightarrow> bit (254 :: int) n \<longleftrightarrow> 0 < n"
proof -
  assume "n < 8"
  then have "n \<in> {0, 1, 2, 3, 4, 5, 6, 7}" by auto
  then show ?thesis by auto
qed

lemma lsb_set: "((p AND 0xFE) OR (if b then 1 else 0)) AND 1 = (if b then 1 else 0 :: 8 word)"
  by (rule bit_word_eqI) (auto simp: bit_and_iff bit_or_iff bit_1_iff bit_254_int)

lemma upper_kept: "((p AND 0xFE) OR (if b then 1 else 0)) AND 0xFE = p AND (0xFE :: 8 word)"
  by (rule bit_word_eqI) (auto simp: bit_and_iff bit_or_iff bit_1_iff bit_254_int)

lemma hideBits_length [simp]: "length (hideBits bs i px) = length px"
  by (induction bs arbitrary: i px) simp_all

lemma hideBits_nth:
  "j < length px \<Longrightarrow>
   hideBits bs i px ! j =
     (if j mod 4 = 0 \<and> i \<le> j div 4 \<and> j div 4 < i + length bs
      then (px ! j AND 0xFE) OR (if bs ! (j div 4 - i) then 1 else 0)
      else px ! j)"
proof (induction bs arbitrary: i px)
  case Nil
  then show ?case by auto
next
  case (Cons b bs)
  let ?px = "px[i * 4 := (px ! (i * 4) AND 0xFE) OR (if b then 1 else 0)]"
  have len: "j < length ?px" using Cons.prems by simp
  show ?case
  proof (cases "j = i * 4")
    case True
    then have "j mod 4 = 0" "j div 4 = i" by auto
    with Cons.IH [OF len, of "i + 1"] True Cons.prems show ?thesis by simp
  next
    case False
    then have ne: "\<not> (j mod 4 = 0 \<and> j div 4 = i)" by auto
    have "?px ! j = px ! j" using False by simp
    with Cons.IH [OF len, of "i + 1"] ne show ?thesis
      by (auto simp: nth_Cons' Suc_diff_le)
  qed
qed

lemma length_lsbs [simp]: "length (lsbs px) = (length px + 3) div 4"
  by (simp add: lsbs_def)

lemma lsbs_index: "k < (length px + 3) div 4 \<longleftrightarrow> k * 4 < length px"
  by arith

lemma lsbs_nth: "k * 4 < length px \<Longrightarrow> lsbs px ! k = (px ! (k * 4) AND 1 = 1)"
  using lsbs_index [of k px] by (simp add: lsbs_def)

lemma lsbs_hideBits:
  assumes "4 * length bs \<le> length px"
  shows "lsbs (hideBits bs 0 px) = bs @ drop (length bs) (lsbs px)"
proof (rule nth_equalityI)
  show "length (lsbs (hideBits bs 0 px)) = length (bs @ drop (length bs) (lsbs px))"
    using assms by simp
next
  fix k
  assume "k < length (lsbs (hideBits bs 0 px))"
  then have k: "k * 4 < length px" using lsbs_index [of k px] by simp
  have "lsbs (hideBits bs 0 px) ! k = (hideBits bs 0 px ! (k * 4) AND 1 = 1)"
    using k by (simp add: lsbs_nth)
  also have "\<dots> = (if k < length bs then bs ! k else lsbs px ! k)"
    using k by (simp add: hideBits_nth lsbs_nth lsb_set)
  also have "\<dots> = (bs @ drop (length bs) (lsbs px)) ! k"
    using k assms by (simp add: nth_append)
  finally show "lsbs (hideBits bs 0 px) ! k = (bs @ drop (length bs) (lsbs px)) ! k" .
qed

lemma extractBits_scanBits: "extractBits px i acc = scanBits acc (drop i (lsbs px))"
proof (induction px i acc rule: extractBits.induct)
  case (1 px i acc)
  show ?case
  proof (cases "i * 4 < length px")
    case True
    then have i: "i < length (lsbs px)" using lsbs_index [of i px] by simp
    have d: "drop i (lsbs px) = (px ! (i * 4) AND 1 = 1) # drop (Suc i) (lsbs px)"
      using Cons_nth_drop_Suc [OF i] lsbs_nth [OF True] by simp
    show ?thesis
    proof (cases "endsWith (acc @ [px ! (i * 4) AND 1 = 1]) delimiter")
      case e: True
      with True d show ?thesis by (subst extractBits.simps) (simp add: Let_def)
    next
      case e: False
      from 1 [OF True refl refl e] True d e show ?thesis
        by (subst extractBits.simps) (simp add: Let_def)
    qed
  next
    case False
    then have "length (lsbs px) \<le> i" using lsbs_index [of i px] by simp
    with False show ?thesis by (subst extractBits.simps) simp
  qed
qed

lemma terminatorFree_iff:
  "terminatorFree s \<longleftrightarrow> (\<forall>k \<le> length s. \<not> endsWith (take k s) delimiter)"
  by (auto simp: terminatorFree_def list_all_iff less_Suc_eq_le)

lemma scanBits_no_match:
  "(\<forall>k. length acc < k \<and> k \<le> length (acc @ s) \<longrightarrow> \<not> endsWith (take k (acc @ s)) delimiter)
   \<Longrightarrow> scanBits acc s = acc @ s"
proof (induction s arbitrary: acc)
  case Nil
  then show ?case by simp
next
  case (Cons b s)
  have "\<not> endsWith (take (Suc (length acc)) (acc @ b # s)) delimiter"
    using Cons.prems [THEN spec, of "Suc (length acc)"] by simp
  then have ne: "\<not> endsWith (acc @ [b]) delimiter" by simp
  have "scanBits (acc @ [b]) s = (acc @ [b]) @ s"
  proof (rule Cons.IH)
    show "\<forall>k. length (acc @ [b]) < k \<and> k \<le> length ((acc @ [b]) @ s) \<longrightarrow>
            \<not> endsWith (take k ((acc @ [b]) @ s)) delimiter"
      using Cons.prems by simp
  qed
  with ne show ?case by simp
qed

lemma scanBits_first_match:
  "length acc < m \<Longrightarrow> m \<le> length (acc @ s) \<Longrightarrow> endsWith (take m (acc @ s)) delimiter \<Longrightarrow>
   (\<forall>k. length acc < k \<and> k < m \<longrightarrow> \<not> endsWith (take k (acc @ s)) delimiter)
   \<Longrightarrow> scanBits acc s = take (m - length delimiter) (acc @ s)"
proof (induction s arbitrary: acc)
  case Nil
  then show ?case by simp
next
  case (Cons b s)
  show ?case
  proof (cases "m = Suc (length acc)")
    case True
    with Cons.prems(3) have e: "endsWith (acc @ [b]) delimiter" by simp
    have "take (m - length delimiter) (acc @ b # s) = take (m - length delimiter) (acc @ [b])"
      using True by (simp add: delimiter_def)
    with e True show ?thesis by simp
  next
    case False
    with Cons.prems(1) have lt: "Suc (length acc) < m" by simp
    then have "\<not> endsWith (take (Suc (length acc)) (acc @ b # s)) delimiter"
      using Cons.prems(4) [THEN spec, of "Suc (length acc)"] by simp
    then have ne: "\<not> endsWith (acc @ [b]) delimiter" by simp
    have "scanBits (acc @ [b]) s = take (m - length delimiter) ((acc @ [b]) @ s)"
    proof (rule Cons.IH)
      show "length (acc @ [b]) < m" using lt by simp
      show "m \<le> length ((acc @ [b]) @ s)" using Cons.prems(2) by simp
      show "endsWith (take m ((acc @ [b]) @ s)) delimiter" using Cons.prems(3) by simp
      show "\<forall>k. length (acc @ [b]) < k \<and> k < m \<longrightarrow> \<not> endsWith (take k ((acc @ [b]) @ s)) delimiter"
        using Cons.prems(4) by simp
    qed
    with ne show ?thesis by simp
  qed
qed

lemma endsWith_last: "endsWith s delimiter \<Longrightarrow> s \<noteq> [] \<and> \<not> last s"
proof -
  assume e: "endsWith s delimiter"
  then have len: "16 \<le> length s" and d: "drop (length s - 16) s = delimiter"
    by (simp_all add: endsWith_def delimiter_def)
  from len have ne: "s \<noteq> []" by auto
  have "last s = last (drop (length s - 16) s)" using len by (simp add: last_drop)
  also have "\<dots> = False" by (simp add: d delimiter_def)
  finally show ?thesis using ne by simp
qed

lemma endsWith_self: "endsWith (d @ delimiter) delimiter"
  by (simp add: endsWith_def)

lemma take_delimiter_last: "0 < j \<Longrightarrow> j < 16 \<Longrightarrow> last (d @ take j delimiter)"
proof -
  assume j: "0 < j" "j < 16"
  then have "take j delimiter = replicate j True"
    by (simp add: delimiter_def min_def)
  with j show ?thesis by simp
qed

lemma scanBits_hidden:
  assumes "terminatorFree d"
  shows "scanBits [] (d @ delimiter @ t) = d"
proof -
  let ?s = "d @ delimiter @ t"
  let ?m = "length d + 16"
  have "scanBits [] ?s = take (?m - length delimiter) ([] @ ?s)"
  proof (rule scanBits_first_match)
    show "length ([] :: bits) < ?m" by simp
    show "?m \<le> length ([] @ ?s)" by (simp add: delimiter_def)
    show "endsWith (take ?m ([] @ ?s)) delimiter"
      using endsWith_self [of d] by (simp add: delimiter_def)
    show "\<forall>k. length ([] :: bits) < k \<and> k < ?m \<longrightarrow> \<not> endsWith (take k ([] @ ?s)) delimiter"
    proof (intro allI impI)
      fix k
      assume k: "length ([] :: bits) < k \<and> k < ?m"
      show "\<not> endsWith (take k ([] @ ?s)) delimiter"
      proof (cases "k \<le> length d")
        case True
        then have "take k ([] @ ?s) = take k d" by simp
        with assms True show ?thesis by (simp add: terminatorFree_iff)
      next
        case False
        with k have j: "0 < k - length d" "k - length d < 16" by auto
        have "take k ([] @ ?s) = d @ take (k - length d) delimiter"
          using False j by (simp add: delimiter_def)
        with take_delimiter_last [OF j, of d] endsWith_last [of "take k ([] @ ?s)"]
        show ?thesis by auto
      qed
    qed
  qed
  then show ?thesis by (simp add: delimiter_def)
qed

lemma extractBits_terminatorFree:
  "terminatorFree (lsbs px) \<Longrightarrow> extractBits px 0 [] = lsbs px"
  using scanBits_no_match [of "[]" "lsbs px"]
  by (simp add: extractBits_scanBits terminatorFree_iff)

lemma extractBits_hidden:
  assumes "terminatorFree d" and "4 * (length d + 16) \<le> length px"
  shows "extractBits (hideBits (d @ delimiter) 0 px) 0 [] = d"
proof -
  have "4 * length (d @ delimiter) \<le> length px"
    using assms(2) by (simp add: delimiter_def)
  then have "lsbs (hideBits (d @ delimiter) 0 px)
               = (d @ delimiter) @ drop (length (d @ delimiter)) (lsbs px)"
    by (rule lsbs_hideBits)
  then show ?thesis
    using scanBits_hidden [OF assms(1)] by (simp add: extractBits_scanBits)
qed

lemma byte_first:
  assumes "unat c < 128"
  shows "padStart 8 False (toString2 (unat c)) ! 0 = False"
proof -
  have "length (toString2 (unat c)) \<le> 7"
    using length_toString2 [of "unat c" 7] assms by simp
  then show ?thesis by (simp add: padStart_def nth_append)
qed

lemma stringToBinary_Cons:
  "stringToBinary (c # s) = padStart 8 False (toString2 (unat c)) @ stringToBinary s"
  by (simp add: stringToBinary_def)

lemma stringToBinary_append: "stringToBinary (s @ t) = stringToBinary s @ stringToBinary t"
  by (simp add: stringToBinary_def)

lemma stringToBinary_byte_start:
  "\<forall>c \<in> set s. unat c < 128 \<Longrightarrow> i < length s \<Longrightarrow> stringToBinary s ! (8 * i) = False"
proof (induction s arbitrary: i)
  case Nil
  then show ?case by simp
next
  case (Cons c s)
  have len: "length (padStart 8 False (toString2 (unat c))) = 8"
    using Cons.prems(1) by (intro length_byte) simp
  show ?case
  proof (cases i)
    case 0
    with Cons.prems len show ?thesis
      by (simp add: stringToBinary_Cons nth_append byte_first)
  next
    case (Suc i')
    with Cons.prems have "stringToBinary s ! (8 * i') = False"
      by (intro Cons.IH) simp_all
    with Suc len show ?thesis
      by (simp add: stringToBinary_Cons nth_append)
  qed
qed

lemma endsWith_nth:
  assumes "endsWith (take k s) delimiter" and "k \<le> length s" and "i < 15"
  shows "16 \<le> k \<and> s ! (k - 16 + i)"
proof -
  have lk: "length (take k s) = k" using assms(2) by simp
  from assms(1) have k: "16 \<le> k" and d: "drop (k - 16) (take k s) = delimiter"
    unfolding endsWith_def lk by (simp_all add: delimiter_def)
  have "drop (k - 16) (take k s) ! i = s ! (k - 16 + i)"
    using k assms(2,3) by simp
  moreover have "delimiter ! i = True"
    using assms(3) by (simp add: delimiter_def nth_append)
  ultimately show ?thesis using k d by simp
qed

lemma ascii_terminatorFree:
  assumes "\<forall>c \<in> set s. unat c < 128"
  shows "terminatorFree (stringToBinary s)"
  unfolding terminatorFree_iff
proof (intro allI impI notI)
  fix k
  assume k: "k \<le> length (stringToBinary s)" and e: "endsWith (take k (stringToBinary s)) delimiter"
  have len: "length (stringToBinary s) = 8 * length s"
    using assms by (intro length_stringToBinary) auto
  define q where "q = (k - 16 + 7) div 8"
  have k16: "16 \<le> k" using endsWith_nth [OF e k, of 0] by simp
  have q1: "k - 16 \<le> 8 * q" and q2: "8 * q \<le> k - 16 + 7" unfolding q_def by arith+
  define i where "i = 8 * q - (k - 16)"
  have i: "i < 15" "8 * q = k - 16 + i" using q1 q2 unfolding i_def by arith+
  have "q < length s" using q2 k16 k len by arith
  then have "stringToBinary s ! (8 * q) = False"
    using assms by (intro stringToBinary_byte_start)
  moreover have "stringToBinary s ! (k - 16 + i)"
    using endsWith_nth [OF e k i(1)] by blast
  ultimately show False using i(2) by simp
qed

section \<open>Properties of encodeMessage and decodeMessage\<close>

text \<open>
  C2 (capacity boundary and atomicity). \<open>encodeMessage\<close> succeeds when the
  bit-string with its delimiter has at most as many bits as the image has pixels,
  exactly as many included; with one bit more or beyond it fails with
  \<open>CapacityExceeded\<close> and the pixel data of the canvas is the one it was given.
\<close>

theorem encode_capacity_boundary:
  "(length (stringToBinary (stringify d) @ delimiter) \<le> pixelCount pixels \<longrightarrow>
      (\<exists>pixels'. encodeMessage stringify pixels d = (Inr pixels', pixels'))) \<and>
   (pixelCount pixels + 1 \<le> length (stringToBinary (stringify d) @ delimiter) \<longrightarrow>
      encodeMessage stringify pixels d = (Inl CapacityExceeded, pixels))"
  by (auto simp: encodeMessage_def Let_def pixelCount_def)

text \<open>
  C4 (frame effect of a successful encoding). The canvas holds the returned pixels,
  of the same length as before; bit \<open>i\<close> of the embedded bit-string is the least
  significant bit of byte \<open>4 * i\<close>, the red channel of pixel \<open>i\<close>, whose other seven
  bits are kept; every byte that is not a red channel, and every byte of a pixel from
  index \<open>n\<close> on, is unchanged.
\<close>

theorem encode_frame_effect:
  assumes "encodeMessage stringify pixels d = (Inr pixels', canvas)"
  shows "canvas = pixels' \<and> length pixels' = length pixels \<and>
         (\<forall>i < length (stringToBinary (stringify d) @ delimiter).
            (pixels' ! (i * 4) AND 1 = 1) = ((stringToBinary (stringify d) @ delimiter) ! i) \<and>
            pixels' ! (i * 4) AND 0xFE = pixels ! (i * 4) AND 0xFE) \<and>
         (\<forall>j < length pixels.
            j mod 4 \<noteq> 0 \<or> length (stringToBinary (stringify d) @ delimiter) \<le> j div 4
              \<longrightarrow> pixels' ! j = pixels ! j)"
proof -
  let ?full = "stringToBinary (stringify d) @ delimiter"
  from assms have cap: "4 * length ?full \<le> length pixels"
    and p': "pixels' = hideBits ?full 0 pixels" and c: "canvas = pixels'"
    by (auto simp: encodeMessage_def Let_def split: if_splits)
  have bits: "\<forall>i < length ?full.
      (pixels' ! (i * 4) AND 1 = 1) = (?full ! i) \<and>
      pixels' ! (i * 4) AND 0xFE = pixels ! (i * 4) AND 0xFE"
  proof (intro allI impI)
    fix i assume i: "i < length ?full"
    with cap have j: "i * 4 < length pixels" by simp
    have "pixels' ! (i * 4) = (pixels ! (i * 4) AND 0xFE) OR (if ?full ! i then 1 else 0)"
      using i unfolding p' hideBits_nth [OF j] by simp
    then show "(pixels' ! (i * 4) AND 1 = 1) = (?full ! i) \<and>
      pixels' ! (i * 4) AND 0xFE = pixels ! (i * 4) AND 0xFE"
      by (simp add: lsb_set upper_kept)
  qed
  have rest: "\<forall>j < length pixels. j mod 4 \<noteq> 0 \<or> length ?full \<le> j div 4 \<longrightarrow> pixels' ! j = pixels ! j"
    unfolding p' by (auto simp: hideBits_nth)
  from c p' bits rest show ?thesis by simp
qed

text \<open>
  C3, as amended (decoding a stream without delimiter). When no prefix of the
  red-channel bits ends with the delimiter, \<open>decodeMessage\<close> reads all of them as
  text and returns \<open>null\<close> when that text is empty, is rejected by the parser or
  parses to \<open>null\<close>, and the parsed value otherwise. The function is total: every
  exception of the source is the result \<open>null\<close>.
\<close>

theorem decode_without_terminator:
  assumes "terminatorFree (lsbs pixels)"
  shows "decodeMessage parse pixels =
           (if binaryToString (lsbs pixels) = [] then None
            else case parse (binaryToString (lsbs pixels)) of
                   None \<Rightarrow> None
                 | Some v \<Rightarrow> if v = JNull then None else Some v)"
proof -
  have "binaryToString [] = []" by (simp add: binaryToString_def match8_lt)
  then show ?thesis
    using extractBits_terminatorFree [OF assms]
    by (auto simp: decodeMessage_def Let_def split: option.splits json.splits)
qed

text \<open>
  C1, as amended (round trip of the codec). When the serialized payload is not empty,
  each of its code units is below 256, no prefix of its bit-string ends with the
  delimiter, the platform's parser returns the payload for it, and the image has at
  least sixteen pixels more than the bit-string has bits, then \<open>encodeMessage\<close>
  succeeds and \<open>decodeMessage\<close> on the encoded pixels returns the payload.
\<close>

theorem encode_decode_roundtrip:
  assumes "stringify d \<noteq> []"
      and "\<forall>c \<in> set (stringify d). unat c < 256"
      and "terminatorFree (stringToBinary (stringify d))"
      and "parse (stringify d) = Some (dataValue d)"
      and "length (stringToBinary (stringify d)) + 16 \<le> pixelCount pixels"
  shows "\<exists>pixels'. encodeMessage stringify pixels d = (Inr pixels', pixels') \<and>
           decodeMessage parse pixels' = Some (dataValue d)"
proof -
  let ?data = "stringToBinary (stringify d)"
  have cap: "4 * (length ?data + 16) \<le> length pixels"
    using assms(5) by (simp add: pixelCount_def)
  then have enc: "encodeMessage stringify pixels d
      = (Inr (hideBits (?data @ delimiter) 0 pixels), hideBits (?data @ delimiter) 0 pixels)"
    by (simp add: encodeMessage_def Let_def delimiter_def)
  have ext: "extractBits (hideBits (?data @ delimiter) 0 pixels) 0 [] = ?data"
    using assms(3) cap by (rule extractBits_hidden)
  have len: "length ?data = 8 * length (stringify d)"
    using assms(2) by (rule length_stringToBinary)
  with assms(1) have ne: "?data \<noteq> []" by auto
  have rt: "binaryToString ?data = stringify d"
    using assms(2) by (rule binaryToString_stringToBinary)
  have "decodeMessage parse (hideBits (?data @ delimiter) 0 pixels) = Some (dataValue d)"
    using assms(1,4) ne by (simp add: decodeMessage_def ext rt dataValue_def)
  with enc show ?thesis by simp
qed

section \<open>Witnesses for the codec\<close>

lemma length_carrier [simp]: "length (carrier s) = 4 * length s"
  by (induction s) (simp_all add: carrier_def)

lemma pixelCount_carrier [simp]: "pixelCount (carrier s) = length s"
  by (simp add: pixelCount_def)

lemma carrier_nth: "k < length s \<Longrightarrow> carrier s ! (k * 4) = (if s ! k then 1 else 0)"
proof (induction s arbitrary: k)
  case Nil
  then show ?case by simp
next
  case (Cons b s)
  show ?case
  proof (cases k)
    case 0
    then show ?thesis by (simp add: carrier_def)
  next
    case (Suc k')
    with Cons.prems have "carrier s ! (k' * 4) = (if s ! k' then 1 else 0)"
      by (intro Cons.IH) simp
    with Suc show ?thesis by (simp add: carrier_def)
  qed
qed

lemma lsbs_carrier [simp]: "lsbs (carrier s) = s"
proof (rule nth_equalityI)
  show "length (lsbs (carrier s)) = length s" by simp
next
  fix k assume "k < length (lsbs (carrier s))"
  then have k: "k < length s" by simp
  then have "lsbs (carrier s) ! k = (carrier s ! (k * 4) AND 1 = 1)"
    by (intro lsbs_nth) simp
  with k show "lsbs (carrier s) ! k = s ! k" by (simp add: carrier_nth)
qed

lemma secret_text_length: "length (stringifyData secretPayload) = 134"
  by code_simp

lemma secret_text_ascii: "\<forall>c \<in> set (stringifyData secretPayload). unat c < 128"
  by code_simp

lemma secret_text_parse:
  "JSON_parse (stringifyData secretPayload) = Some (dataValue secretPayload)"
  by code_simp

lemma secret_bits_length: "length (stringToBinary (stringifyData secretPayload)) = 1072"
proof -
  have "\<forall>c \<in> set (stringifyData secretPayload). unat c < 256"
    using secret_text_ascii by fastforce
  then show ?thesis
    using length_stringToBinary [of "stringifyData secretPayload"] secret_text_length by simp
qed

lemma encodeMessage_success:
  "4 * length (stringToBinary (stringify d) @ delimiter) \<le> length pixels \<Longrightarrow>
   encodeMessage stringify pixels d =
     (Inr (hideBits (stringToBinary (stringify d) @ delimiter) 0 pixels),
      hideBits (stringToBinary (stringify d) @ delimiter) 0 pixels)"
  by (simp add: encodeMessage_def Let_def)

text \<open>
  The round trip at \<open>secretPayload\<close> in an image of 1100 pixels: the serialized
  payload is ASCII, hence free of the delimiter.
\<close>

theorem encode_decode_roundtrip_witness:
  "length (stringToBinary (stringifyData secretPayload)) + 16 \<le> pixelCount (blankImage 1100) \<and>
   (\<exists>pixels'. encodeMessage stringifyData (blankImage 1100) secretPayload = (Inr pixels', pixels') \<and>
      decodeMessage JSON_parse pixels' = Some (dataValue secretPayload))"
proof -
  have ascii: "\<forall>c \<in> set (stringifyData secretPayload). unat c < 128"
    by (rule secret_text_ascii)
  have h1: "stringifyData secretPayload \<noteq> []"
    using secret_text_length by auto
  have h2: "\<forall>c \<in> set (stringifyData secretPayload). unat c < 256"
    using ascii by fastforce
  have h3: "terminatorFree (stringToBinary (stringifyData secretPayload))"
    using ascii by (rule ascii_terminatorFree)
  have h5: "length (stringToBinary (stringifyData secretPayload)) + 16 \<le> pixelCount (blankImage 1100)"
    by (simp add: secret_bits_length blankImage_def)
  show ?thesis
    using h5 encode_decode_roundtrip [where stringify = stringifyData and d = secretPayload
        and parse = JSON_parse and pixels = "blankImage 1100", OF h1 h2 h3 secret_text_parse h5]
    by simp
qed

text \<open>
  The boundary at \<open>secretPayload\<close>, whose bit-string with the delimiter has 1088
  bits: an image of 1088 pixels is encoded, one of 1087 pixels is rejected unchanged.
\<close>

theorem encode_capacity_boundary_witness:
  "length (stringToBinary (stringifyData secretPayload) @ delimiter) \<le> pixelCount (blankImage 1088) \<and>
   (\<exists>pixels'. encodeMessage stringifyData (blankImage 1088) secretPayload = (Inr pixels', pixels')) \<and>
   pixelCount (blankImage 1087) + 1 \<le> length (stringToBinary (stringifyData secretPayload) @ delimiter) \<and>
   encodeMessage stringifyData (blankImage 1087) secretPayload
     = (Inl CapacityExceeded, blankImage 1087)"
proof -
  have len: "length (stringToBinary (stringifyData secretPayload) @ delimiter) = 1088"
    by (simp add: secret_bits_length delimiter_def)
  have a: "length (stringToBinary (stringifyData secretPayload) @ delimiter) \<le> pixelCount (blankImage 1088)"
    unfolding len by (simp add: blankImage_def)
  have b: "pixelCount (blankImage 1087) + 1 \<le> length (stringToBinary (stringifyData secretPayload) @ delimiter)"
    unfolding len by (simp add: blankImage_def)
  show ?thesis
    using a b encode_capacity_boundary [of stringifyData secretPayload "blankImage 1088"]
      encode_capacity_boundary [of stringifyData secretPayload "blankImage 1087"]
    by blast
qed

text \<open>The frame effect at \<open>secretPayload\<close> in an image of 1088 pixels.\<close>

theorem encode_frame_effect_witness:
  "encodeMessage stringifyData (blankImage 1088) secretPayload
     = (Inr (hideBits (stringToBinary (stringifyData secretPayload) @ delimiter) 0 (blankImage 1088)),
        hideBits (stringToBinary (stringifyData secretPayload) @ delimiter) 0 (blankImage 1088)) \<and>
   length (hideBits (stringToBinary (stringifyData secretPayload) @ delimiter) 0 (blankImage 1088))
     = length (blankImage 1088)"
proof -
  have len: "length (stringToBinary (stringifyData secretPayload) @ delimiter) = 1088"
    by (simp add: secret_bits_length delimiter_def)
  have e: "encodeMessage stringifyData (blankImage 1088) secretPayload
     = (Inr (hideBits (stringToBinary (stringifyData secretPayload) @ delimiter) 0 (blankImage 1088)),
        hideBits (stringToBinary (stringifyData secretPayload) @ delimiter) 0 (blankImage 1088))"
    by (rule encodeMessage_success) (simp only: len, simp add: blankImage_def)
  show ?thesis using e encode_frame_effect [OF e] by blast
qed

text \<open>A black image of 20 pixels has no delimiter and decodes to \<open>null\<close>.\<close>

theorem decode_without_terminator_witness:
  "terminatorFree (lsbs (blankImage 20)) \<and> decodeMessage JSON_parse (blankImage 20) = None"
proof -
  have l: "lsbs (blankImage 20) = replicate 20 False" by (simp add: blankImage_def)
  have h: "terminatorFree (lsbs (blankImage 20))" unfolding l by code_simp
  have p: "JSON_parse (binaryToString (replicate 20 False)) = None" by code_simp
  show ?thesis using h decode_without_terminator [OF h, of JSON_parse] by (simp add: l p)
qed

text \<open>
  C3 as stated fails: an image whose red-channel bits are the serialized
  \<open>secretPayload\<close> and nothing more has no delimiter, and \<open>decodeMessage\<close> returns
  the payload.
\<close>

theorem decode_without_terminator_counterexample:
  "terminatorFree (lsbs (carrier (stringToBinary (stringifyData secretPayload)))) \<and>
   decodeMessage JSON_parse (carrier (stringToBinary (stringifyData secretPayload)))
     = Some (dataValue secretPayload)"
proof -
  let ?bits = "stringToBinary (stringifyData secretPayload)"
  have ascii: "\<forall>c \<in> set (stringifyData secretPayload). unat c < 128"
    by (rule secret_text_ascii)
  have tf: "terminatorFree (lsbs (carrier ?bits))"
    using ascii_terminatorFree [OF ascii] by simp
  have ex: "extractBits (carrier ?bits) 0 [] = ?bits"
    using extractBits_terminatorFree [OF tf] by simp
  have ne: "?bits \<noteq> []" using secret_bits_length by auto
  have "\<forall>c \<in> set (stringifyData secretPayload). unat c < 256"
    using ascii by fastforce
  then have rt: "binaryToString ?bits = stringifyData secretPayload"
    by (rule binaryToString_stringToBinary)
  have t: "stringifyData secretPayload \<noteq> []" using secret_text_length by auto
  have "decodeMessage JSON_parse (carrier ?bits) = Some (dataValue secretPayload)"
    using ne t by (simp add: decodeMessage_def ex rt secret_text_parse dataValue_def)
  with tf show ?thesis by simp
qed

lemma replicate_num: "replicate (numeral k) x = x # replicate (pred_numeral k) x"
  by (simp add: numeral_eq_Suc)

lemma opening_scan:
  "scanBits [] (stringToBinary (messageOpening @ [0xFF, 0xFE]) @ rest)
     = stringToBinary messageOpening"
  by (simp add: messageOpening_def js_def stringToBinary_def padStart_def
      toString2_small toString2_large endsWith_def delimiter_def replicate_num)

lemma colliding_text:
  "stringifyData collidingPayload
     = (messageOpening @ [0xFF, 0xFE]) @ drop 14 (stringifyData collidingPayload)"
  by code_simp

lemma colliding_text_length: "length (stringifyData collidingPayload) = 124"
  by code_simp

lemma colliding_text_bytes: "\<forall>c \<in> set (stringifyData collidingPayload). unat c < 256"
  by code_simp

lemma opening_parse: "JSON_parse messageOpening = None"
  by code_simp

lemma opening_bytes: "\<forall>c \<in> set messageOpening. unat c < 256"
  by (simp add: messageOpening_def js_def)

text \<open>
  C1 as stated fails: the message U+00FF U+00FE serializes to the sixteen bits of the
  delimiter, the scan of \<open>decodeMessage\<close> stops there, the text read is the opening
  of the object only, and the result is \<open>null\<close>, although the image is large
  enough and the encoding succeeds.
\<close>

theorem encode_decode_roundtrip_counterexample:
  "length (stringToBinary (stringifyData collidingPayload)) + 16 \<le> pixelCount (blankImage 1100) \<and>
   fst (encodeMessage stringifyData (blankImage 1100) collidingPayload)
     = Inr (snd (encodeMessage stringifyData (blankImage 1100) collidingPayload)) \<and>
   decodeMessage JSON_parse (snd (encodeMessage stringifyData (blankImage 1100) collidingPayload))
     = None"
proof -
  let ?text = "stringifyData collidingPayload"
  let ?full = "stringToBinary ?text @ delimiter"
  let ?px = "hideBits ?full 0 (blankImage 1100)"
  have len: "length (stringToBinary ?text) = 992"
    using length_stringToBinary [OF colliding_text_bytes] colliding_text_length by simp
  then have cap: "4 * length ?full \<le> length (blankImage 1100)"
    by (simp add: delimiter_def blankImage_def)
  have enc: "encodeMessage stringifyData (blankImage 1100) collidingPayload = (Inr ?px, ?px)"
    using cap by (rule encodeMessage_success)
  have "stringToBinary ?text
          = stringToBinary (messageOpening @ [0xFF, 0xFE]) @ stringToBinary (drop 14 ?text)"
    by (subst colliding_text) (simp only: stringToBinary_append)
  then have "lsbs ?px = stringToBinary (messageOpening @ [0xFF, 0xFE])
      @ (stringToBinary (drop 14 ?text) @ delimiter @ drop (length ?full) (lsbs (blankImage 1100)))"
    using lsbs_hideBits [OF cap] by simp
  then have ex: "extractBits ?px 0 [] = stringToBinary messageOpening"
    by (simp only: extractBits_scanBits drop_0 opening_scan)
  have rt: "binaryToString (stringToBinary messageOpening) = messageOpening"
    using opening_bytes by (rule binaryToString_stringToBinary)
  have ne: "messageOpening \<noteq> []" by (simp add: messageOpening_def js_def)
  have "length (stringToBinary messageOpening) = 8 * length messageOpening"
    using opening_bytes by (rule length_stringToBinary)
  with ne have ne': "stringToBinary messageOpening \<noteq> []" by auto
  have "decodeMessage JSON_parse ?px = None"
    using ne ne' by (simp add: decodeMessage_def ex rt opening_parse)
  with enc len show ?thesis by (simp add: blankImage_def)
qed

lemma messageOnly_ascii: "\<forall>c \<in> set (JSON_stringify messageOnly). unat c < 128"
  by code_simp

lemma messageOnly_parse: "JSON_parse (JSON_stringify messageOnly) = Some messageOnly"
  by code_simp

lemma JSON_parse_empty: "JSON_parse [] = None"
  by (simp add: JSON_parse_def skipWs_def)

lemma decodeMessage_Some:
  "extractBits px 0 [] = b \<Longrightarrow> b \<noteq> [] \<Longrightarrow> binaryToString b = t \<Longrightarrow> t \<noteq> [] \<Longrightarrow>
   parse t = Some v \<Longrightarrow> v \<noteq> JNull \<Longrightarrow> decodeMessage parse px = Some v"
  by (cases v) (simp_all add: decodeMessage_def)

text \<open>
  C9 (no validation of the decoded value). Some image spells, in its red-channel
  bits, the JSON text of an object with a message and no click sequence, followed by
  the delimiter; \<open>decodeMessage\<close> returns that object, which has no
  \<open>clickSequence\<close> property.
\<close>

theorem decode_unvalidated:
  "\<exists>pixels.
     lsbs pixels = stringToBinary (JSON_stringify messageOnly) @ delimiter \<and>
     decodeMessage JSON_parse pixels = Some messageOnly \<and>
     getProp messageOnly (js ''clickSequence'') = None"
proof -
  let ?text = "JSON_stringify messageOnly"
  let ?px = "carrier (stringToBinary ?text @ delimiter)"
  have b: "\<forall>c \<in> set ?text. unat c < 256"
    using messageOnly_ascii by fastforce
  have tf: "terminatorFree (stringToBinary ?text)"
    using messageOnly_ascii by (rule ascii_terminatorFree)
  have ex: "extractBits ?px 0 [] = stringToBinary ?text"
    using scanBits_hidden [OF tf, of "[]"] by (simp add: extractBits_scanBits)
  have rt: "binaryToString (stringToBinary ?text) = ?text"
    using b by (rule binaryToString_stringToBinary)
  have ne: "?text \<noteq> []" using messageOnly_parse JSON_parse_empty by auto
  have "length (stringToBinary ?text) = 8 * length ?text"
    using b by (rule length_stringToBinary)
  with ne have ne': "stringToBinary ?text \<noteq> []" by auto
  have nn: "messageOnly \<noteq> JNull" by (simp add: messageOnly_def)
  have d: "decodeMessage JSON_parse ?px = Some messageOnly"
    using ex ne' rt ne messageOnly_parse nn by (rule decodeMessage_Some)
  have g: "getProp messageOnly (js ''clickSequence'') = None"
    by (simp add: messageOnly_def js_def)
  have "lsbs ?px = stringToBinary ?text @ delimiter" by simp
  with d g show ?thesis by blast
qed

section \<open>Properties of the click matcher\<close>

lemma isClickNearPoint_default:
  "isClickNearPoint ops cx cy tx ty None
     = isClickNearPoint ops cx cy tx ty (Some (n_int ops 30))"
  by (simp add: isClickNearPoint_def defaultTolerance_def)


lemma handleVerificationClick_mismatch:
  assumes "currentStep st < length sequence"
      and "\<not> nearStep ops sequence width height (cx, cy) (currentStep st)"
  shows "handleVerificationClick ops sequence width height cx cy st =
           (st\<lparr>verificationAttempts := verificationAttempts st
                   @ [\<lparr>pt_x = n_div ops cx (n_int ops (int width)),
                       pt_y = n_div ops cy (n_int ops (int height)),
                       pt_order = currentStep st\<rparr>]\<rparr>,
            Some ResetTimer)"
  using assms by (auto simp: handleVerificationClick_def Let_def nearStep_def)





text \<open>Evaluation of the matcher's test in the arithmetic of the real numbers.\<close>

lemma sqrt_le_iff_sq: "0 \<le> t \<Longrightarrow> sqrt a \<le> t \<longleftrightarrow> a \<le> t ^ 2"
proof -
  assume t: "0 \<le> t"
  then have "sqrt (t ^ 2) = t" by simp
  then have "sqrt a \<le> t \<longleftrightarrow> sqrt a \<le> sqrt (t ^ 2)" by simp
  then show ?thesis by (simp only: real_sqrt_le_iff)
qed

lemma nearStep_exact:
  "nearStep exactOps sequence width height click i \<longleftrightarrow>
     (fst click - pt_x (sequence ! i) * real width) ^ 2
       + (snd click - pt_y (sequence ! i) * real height) ^ 2 \<le> 625"
  by (simp add: nearStep_def isClickNearPoint_def denormalizeClickPoint_def exactOps_def
      sqrt_le_iff_sq Let_def)






section \<open>Properties of the lockout\<close>

text \<open>The steps of the two components on \<open>secretPoints\<close>, one event at a time.\<close>

lemma miss_in_corner:
  assumes "currentStep c = 0"
  shows "handleVerificationClick exactOps secretPoints 600 400 0 0 c =
           (c\<lparr>verificationAttempts := verificationAttempts c
                @ [\<lparr>pt_x = 0, pt_y = 0, pt_order = 0\<rparr>]\<rparr>, Some ResetTimer)"
proof -
  have lt: "currentStep c < length secretPoints" using assms by (simp add: secretPoints_def)
  have "\<not> nearStep exactOps secretPoints 600 400 (0, 0) (currentStep c)"
    using assms by (simp add: nearStep_exact secretPoints_def)
  from handleVerificationClick_mismatch [OF lt this] assms show ?thesis
    by (simp add: exactOps_def)
qed

lemma run_Nil: "runEvents parse ops w h [] app = app"
  by (simp add: runEvents_def)

lemma run_Cons:
  "runEvents parse ops w h (e # es) app = runEvents parse ops w h es (appStep parse ops w h e app)"
  by (simp add: runEvents_def)

lemma run_append:
  "runEvents parse ops w h (es @ es') app
     = runEvents parse ops w h es' (runEvents parse ops w h es app)"
  by (simp add: runEvents_def)

lemma secretPoints_ne: "secretPoints \<noteq> []"
  by (simp add: secretPoints_def)

lemma step_start:
  "image d \<noteq> None \<Longrightarrow> dm_clickSequence d = secretPoints \<Longrightarrow> \<not> isVerifying d \<Longrightarrow>
   \<not> verificationSuccess d \<Longrightarrow>
   appStep parse ops w h StartVerification \<lparr>app_decode = d, app_canvas = c, app_pending = p\<rparr>
     = \<lparr>app_decode = d\<lparr>isVerifying := True\<rparr>, app_canvas = c, app_pending = p\<rparr>"
  using secretPoints_ne by (simp add: startVerification_def Let_def)

lemma step_miss:
  "image d \<noteq> None \<Longrightarrow> dm_clickSequence d = secretPoints \<Longrightarrow> isVerifying d \<Longrightarrow>
   currentStep c = 0 \<Longrightarrow>
   appStep parse exactOps 600 400 (CanvasClick 0 0) \<lparr>app_decode = d, app_canvas = c, app_pending = p\<rparr>
     = \<lparr>app_decode = d,
        app_canvas = c\<lparr>verificationAttempts := verificationAttempts c
                          @ [\<lparr>pt_x = 0, pt_y = 0, pt_order = 0\<rparr>]\<rparr>,
        app_pending = p @ [(ResetTimer, d)]\<rparr>"
  using secretPoints_ne by (simp add: Let_def miss_in_corner)

lemma step_fire_reset:
  "appStep parse ops w h (TimerFires 0)
     \<lparr>app_decode = d, app_canvas = c, app_pending = (ResetTimer, closure) # p\<rparr>
     = \<lparr>app_decode = (if 2 \<le> attempts closure then initialDecodeMode
                       else d\<lparr>isVerifying := False, attempts := attempts d + 1\<rparr>),
        app_canvas = initialCanvas, app_pending = p\<rparr>"
  by (simp add: handleVerificationComplete_def resetAll_def initialDecodeMode_def Let_def)

lemma quickMisses_run:
  "runEvents JSON_parse exactOps 600 400 quickMisses loadedApp
     = \<lparr>app_decode = loadedDecodeMode\<lparr>attempts := 3\<rparr>, app_canvas = initialCanvas,
        app_pending = []\<rparr>"
  by (simp add: quickMisses_def loadedApp_def loadedDecodeMode_def run_Cons run_Nil
      step_start step_miss step_fire_reset initialCanvas_def del: appStep.simps)

lemma oneMiss_run:
  "image d \<noteq> None \<Longrightarrow> dm_clickSequence d = secretPoints \<Longrightarrow> \<not> isVerifying d \<Longrightarrow>
   \<not> verificationSuccess d \<Longrightarrow>
   runEvents parse exactOps 600 400 oneMiss
       \<lparr>app_decode = d, app_canvas = initialCanvas, app_pending = []\<rparr>
     = \<lparr>app_decode = (if 2 \<le> attempts d then initialDecodeMode
                       else d\<lparr>attempts := attempts d + 1\<rparr>),
        app_canvas = initialCanvas, app_pending = []\<rparr>"
  by (simp add: oneMiss_def run_Cons run_Nil step_start step_miss step_fire_reset
      initialCanvas_def del: appStep.simps)

text \<open>
  C8 (lockout at the third failed session). The code departs from it: in one session
  three clicks miss before the first callback runs; each callback counts an attempt
  and tests the counter of the render of its click, which is 0, so the session ends
  with the counter at 3 and the image still loaded; the second failed session then
  resets the whole state.
\<close>

theorem lockout_miscounts_quick_misses:
  "app_decode (runEvents JSON_parse exactOps 600 400 quickMisses loadedApp)
     = loadedDecodeMode\<lparr>attempts := 3\<rparr> \<and>
   app_decode (runEvents JSON_parse exactOps 600 400 (quickMisses @ oneMiss) loadedApp)
     = initialDecodeMode"
proof -
  have a: "runEvents JSON_parse exactOps 600 400 quickMisses loadedApp
     = \<lparr>app_decode = loadedDecodeMode\<lparr>attempts := 3\<rparr>, app_canvas = initialCanvas,
        app_pending = []\<rparr>"
    by (rule quickMisses_run)
  have b: "runEvents JSON_parse exactOps 600 400 oneMiss
       \<lparr>app_decode = loadedDecodeMode\<lparr>attempts := 3\<rparr>, app_canvas = initialCanvas,
        app_pending = []\<rparr>
     = \<lparr>app_decode = initialDecodeMode, app_canvas = initialCanvas, app_pending = []\<rparr>"
    by (subst oneMiss_run) (simp_all add: loadedDecodeMode_def)
  show ?thesis unfolding run_append a b by simp
qed

text \<open>
  With one miss in each session the first two failed sessions count 1 and 2 and keep
  the image and the click sequence, and the third resets the whole state.
\<close>

lemma single_miss_sessions:
  "app_decode (runEvents JSON_parse exactOps 600 400 oneMiss loadedApp)
     = loadedDecodeMode\<lparr>attempts := 1\<rparr> \<and>
   app_decode (runEvents JSON_parse exactOps 600 400 (oneMiss @ oneMiss) loadedApp)
     = loadedDecodeMode\<lparr>attempts := 2\<rparr> \<and>
   app_decode (runEvents JSON_parse exactOps 600 400 (oneMiss @ oneMiss @ oneMiss) loadedApp)
     = initialDecodeMode"
proof -
  have a: "runEvents JSON_parse exactOps 600 400 oneMiss loadedApp
     = \<lparr>app_decode = loadedDecodeMode\<lparr>attempts := 1\<rparr>, app_canvas = initialCanvas,
        app_pending = []\<rparr>"
    unfolding loadedApp_def by (subst oneMiss_run) (simp_all add: loadedDecodeMode_def)
  have b: "runEvents JSON_parse exactOps 600 400 oneMiss
       \<lparr>app_decode = loadedDecodeMode\<lparr>attempts := 1\<rparr>, app_canvas = initialCanvas,
        app_pending = []\<rparr>
     = \<lparr>app_decode = loadedDecodeMode\<lparr>attempts := 2\<rparr>, app_canvas = initialCanvas,
        app_pending = []\<rparr>"
    by (subst oneMiss_run) (simp_all add: loadedDecodeMode_def)
  have c: "runEvents JSON_parse exactOps 600 400 oneMiss
       \<lparr>app_decode = loadedDecodeMode\<lparr>attempts := 2\<rparr>, app_canvas = initialCanvas,
        app_pending = []\<rparr>
     = \<lparr>app_decode = initialDecodeMode, app_canvas = initialCanvas, app_pending = []\<rparr>"
    by (subst oneMiss_run) (simp_all add: loadedDecodeMode_def)
  show ?thesis unfolding run_append a b c by simp
qed

end
